theory Spec2Isabelle
  imports Complex_Main "HOL-Library.Multiset"
begin

section \<open>Strings\<close>

text \<open>
  Python strings are modelled as \<^typ>\<open>string\<close>. The text handled by the functions below
  (voice names, locales, search terms, paths) is taken to be ASCII: \<open>lower\<close>, \<open>upper\<close>
  and \<open>strip\<close> act on the ASCII letters and the ASCII white space and leave every other
  character alone.
\<close>

definition lower_char :: "char \<Rightarrow> char" where
  "lower_char c =
     (let n = (of_char c :: nat) in if 65 \<le> n \<and> n \<le> 90 then char_of (n + 32) else c)"

definition upper_char :: "char \<Rightarrow> char" where
  "upper_char c =
     (let n = (of_char c :: nat) in if 97 \<le> n \<and> n \<le> 122 then char_of (n - 32) else c)"

definition lower :: "string \<Rightarrow> string" where
  "lower s = map lower_char s"

definition upper :: "string \<Rightarrow> string" where
  "upper s = map upper_char s"

definition is_space :: "char \<Rightarrow> bool" where
  "is_space c = (let n = (of_char c :: nat) in (9 \<le> n \<and> n \<le> 13) \<or> (28 \<le> n \<and> n \<le> 32))"

definition strip :: "string \<Rightarrow> string" where
  "strip s = rev (dropWhile is_space (rev (dropWhile is_space s)))"

text \<open>\<open>sub in s\<close> on strings: \<open>sub\<close> occurs as a contiguous block of \<open>s\<close>.\<close>

fun starts_with :: "string \<Rightarrow> string \<Rightarrow> bool" where
  "starts_with s [] = True"
| "starts_with [] (p # ps) = False"
| "starts_with (c # cs) (p # ps) = (c = p \<and> starts_with cs ps)"

fun str_in :: "string \<Rightarrow> string \<Rightarrow> bool" where
  "str_in sub [] = (sub = [])"
| "str_in sub (c # cs) = (starts_with (c # cs) sub \<or> str_in sub cs)"

text \<open>\<open>str(n)\<close> for an integer: decimal digits, with a leading minus sign when negative.\<close>

definition digit_char :: "int \<Rightarrow> char" where
  "digit_char d = char_of (48 + d)"

function str_digits :: "int \<Rightarrow> string" where
  "str_digits n =
     (if n < 10 then [digit_char n] else str_digits (n div 10) @ [digit_char (n mod 10)])"
  by pat_completeness auto
termination
  by (relation "measure nat") auto

declare str_digits.simps [simp del]

definition str_int :: "int \<Rightarrow> string" where
  "str_int i = (if i < 0 then CHR ''-'' # str_digits (- i) else str_digits i)"

section \<open>Floating-point numbers\<close>

text \<open>
  A Python \<open>float\<close> is an IEEE 754 binary64 value: a finite value (a rational with a
  53-bit significand), an infinity or a NaN. Arithmetic rounds the exact result to the
  nearest representable value, ties to the even significand. The two zeros are not
  told apart: \<open>round\<close> sends both to the integer \<open>0\<close>.
\<close>

datatype pyfloat = Fin rat | PosInf | NegInf | NaN

text \<open>\<open>bit_length n\<close> is the number of binary digits of a positive integer.\<close>

function bit_length :: "int \<Rightarrow> int" where
  "bit_length n = (if n \<le> 0 then 0 else 1 + bit_length (n div 2))"
  by pat_completeness auto
termination
  by (relation "measure nat") auto

declare bit_length.simps [simp del]

definition pow2 :: "int \<Rightarrow> rat" where
  "pow2 k = (if 0 \<le> k then 2 ^ nat k else 1 / 2 ^ nat (- k))"

text \<open>\<open>ilog2 x\<close> is the exponent \<open>e\<close> with \<open>2^e \<le> x < 2^(e+1)\<close>, for positive \<open>x\<close>.\<close>

definition ilog2 :: "rat \<Rightarrow> int" where
  "ilog2 x =
     (let (a, b) = quotient_of x;
          e0 = bit_length a - bit_length b
      in if pow2 e0 \<le> x then e0 else e0 - 1)"

definition round_half_even :: "rat \<Rightarrow> int" where
  "round_half_even r =
     (let f = \<lfloor>r\<rfloor>; d = r - of_int f
      in if d < 1 / 2 then f else if 1 / 2 < d then f + 1 else if even f then f else f + 1)"

text \<open>
  Rounding an exact result to binary64: 53 significant bits, the least quantum
  \<open>2^-1074\<close>, and overflow to an infinity from \<open>2^1024\<close> on.
\<close>

definition fl :: "rat \<Rightarrow> pyfloat" where
  "fl x =
     (if x = 0 then Fin 0
      else let q = max (ilog2 \<bar>x\<bar> - 52) (- 1074);
               y = of_int (round_half_even (x / pow2 q)) * pow2 q
           in if y \<noteq> 0 \<and> 1024 \<le> ilog2 \<bar>y\<bar> then (if 0 < y then PosInf else NegInf)
              else Fin y)"

fun py_sub :: "pyfloat \<Rightarrow> pyfloat \<Rightarrow> pyfloat" where
  "py_sub NaN _ = NaN"
| "py_sub _ NaN = NaN"
| "py_sub PosInf PosInf = NaN"
| "py_sub NegInf NegInf = NaN"
| "py_sub PosInf _ = PosInf"
| "py_sub NegInf _ = NegInf"
| "py_sub (Fin a) PosInf = NegInf"
| "py_sub (Fin a) NegInf = PosInf"
| "py_sub (Fin a) (Fin b) = fl (a - b)"

fun py_mul :: "pyfloat \<Rightarrow> pyfloat \<Rightarrow> pyfloat" where
  "py_mul NaN _ = NaN"
| "py_mul _ NaN = NaN"
| "py_mul (Fin a) (Fin b) = fl (a * b)"
| "py_mul (Fin a) PosInf = (if a = 0 then NaN else if 0 < a then PosInf else NegInf)"
| "py_mul (Fin a) NegInf = (if a = 0 then NaN else if 0 < a then NegInf else PosInf)"
| "py_mul PosInf (Fin b) = (if b = 0 then NaN else if 0 < b then PosInf else NegInf)"
| "py_mul NegInf (Fin b) = (if b = 0 then NaN else if 0 < b then NegInf else PosInf)"
| "py_mul PosInf PosInf = PosInf"
| "py_mul PosInf NegInf = NegInf"
| "py_mul NegInf PosInf = NegInf"
| "py_mul NegInf NegInf = PosInf"

datatype py_error = ValueError | OverflowError | FileExistsError

text \<open>\<open>round(x)\<close> on a float: the nearest integer, ties to even; it raises on NaN and
  on the infinities.\<close>

fun py_round :: "pyfloat \<Rightarrow> py_error + int" where
  "py_round (Fin r) = Inr (round_half_even r)"
| "py_round NaN = Inl ValueError"
| "py_round PosInf = Inl OverflowError"
| "py_round NegInf = Inl OverflowError"

section \<open>Speed to rate\<close>

definition calculate_rate_parameter :: "pyfloat \<Rightarrow> py_error + string" where
  "calculate_rate_parameter speed =
     (if speed = Fin 1 then Inr ''+0%''
      else case py_round (py_mul (py_sub speed (Fin 1)) (Fin 100)) of
             Inl e \<Rightarrow> Inl e
           | Inr percent \<Rightarrow>
               Inr (if 0 < percent then ''+'' @ str_int percent @ ''%''
                    else str_int percent @ ''%''))"

section \<open>Dictionaries\<close>

text \<open>
  A Python \<open>dict\<close> keeps its keys in insertion order, and the catalogue is listed in that
  order, so a dictionary is an association list with pairwise distinct keys. Storing
  under a key that is present replaces the value where it stands; a new key goes last.
\<close>

fun dict_set :: "('k \<times> 'v) list \<Rightarrow> 'k \<Rightarrow> 'v \<Rightarrow> ('k \<times> 'v) list" where
  "dict_set [] k v = [(k, v)]"
| "dict_set ((k', v') # d) k v = (if k' = k then (k, v) # d else (k', v') # dict_set d k v)"

definition dict_del :: "('k \<times> 'v) list \<Rightarrow> 'k \<Rightarrow> ('k \<times> 'v) list" where
  "dict_del d k = filter (\<lambda>kv. fst kv \<noteq> k) d"

definition dict_values :: "('k \<times> 'v) list \<Rightarrow> 'v list" where
  "dict_values d = map snd d"

definition dict_keys :: "('k \<times> 'v) list \<Rightarrow> 'k list" where
  "dict_keys d = map fst d"

definition py_get :: "('k \<times> 'v) list \<Rightarrow> 'k \<Rightarrow> 'v \<Rightarrow> 'v" where
  "py_get d k dflt = (case map_of d k of None \<Rightarrow> dflt | Some v \<Rightarrow> v)"

section \<open>Voice catalogue\<close>

record voice =
  display_name :: string
  short_name :: string
  info :: "(string \<times> string) list"
  language :: string
  voice_locale :: string
  gender :: string

text \<open>A voice as the provider lists it: a dictionary from field names to strings.\<close>

type_synonym provider_voice = "(string \<times> string) list"

definition get_fallback_voices :: "(string \<times> voice list) list" where
  "get_fallback_voices =
     [(''English'',
       [\<lparr>display_name = ''English Female - Jenny'', short_name = ''en-US-JennyNeural'',
         info = [(''Locale'', ''en-US''), (''Gender'', ''Female'')],
         language = ''English'', voice_locale = ''en-US'', gender = ''Female''\<rparr>,
        \<lparr>display_name = ''English Male - Guy'', short_name = ''en-US-GuyNeural'',
         info = [(''Locale'', ''en-US''), (''Gender'', ''Male'')],
         language = ''English'', voice_locale = ''en-US'', gender = ''Male''\<rparr>])]"

definition lang_names :: "(string \<times> string) list" where
  "lang_names =
     [(''en'', ''English''), (''es'', ''Spanish''), (''fr'', ''French''), (''de'', ''German'')]"

text \<open>\<open>s.split(sep)[0]\<close>: the text before the first separator.\<close>

definition split_first :: "char \<Rightarrow> string \<Rightarrow> string" where
  "split_first sep s = takeWhile (\<lambda>c. c \<noteq> sep) s"

text \<open>The body of the loop of \<open>load_voices\<close>: the descriptor of one provider voice, or
  nothing for a voice with no short name (\<open>continue\<close>).\<close>

definition voice_data_of :: "provider_voice \<Rightarrow> voice option" where
  "voice_data_of v =
     (let loc = strip (py_get v ''Locale'' []);
          short = py_get v ''ShortName'' [];
          friendly = py_get v ''FriendlyName'' short;
          gen = py_get v ''Gender'' ''Unknown''
      in if short = [] then None
         else let lang_code = (if loc \<noteq> [] then split_first CHR ''-'' loc else ''en'');
                  language_name =
                    (case map_of lang_names lang_code of
                       Some n \<Rightarrow> n
                     | None \<Rightarrow> upper lang_code @ '' Language'')
              in Some \<lparr>display_name = friendly @ '' - '' @ gen, short_name = short, info = v,
                        language = language_name, voice_locale = loc, gender = gen\<rparr>)"

definition group_append ::
  "(string \<times> voice list) list \<Rightarrow> string \<Rightarrow> voice \<Rightarrow> (string \<times> voice list) list" where
  "group_append language_groups language_name voice_data =
     (let groups = (if map_of language_groups language_name = None
                    then dict_set language_groups language_name []
                    else language_groups)
      in dict_set groups language_name (py_get groups language_name [] @ [voice_data]))"

fun add_voice ::
  "(string \<times> voice list) list \<times> voice list \<Rightarrow> provider_voice
     \<Rightarrow> (string \<times> voice list) list \<times> voice list" where
  "add_voice (language_groups, all_voices) v =
     (case voice_data_of v of
        None \<Rightarrow> (language_groups, all_voices)
      | Some voice_data \<Rightarrow>
          (group_append language_groups (language voice_data) voice_data,
           all_voices @ [voice_data]))"

text \<open>The comprehension \<open>{v['display_name']: v for v in vs}\<close>.\<close>

definition by_display_name :: "voice list \<Rightarrow> (string \<times> voice) list" where
  "by_display_name vs = foldl (\<lambda>d v. dict_set d (display_name v) v) [] vs"

section \<open>Process state\<close>

text \<open>
  The module's global tables, the loaded transcription model (\<open>None\<close> when the import
  failed) and the files that exist in the temporary directory.
\<close>

record state =
  VOICE_DATA :: "(string \<times> voice) list"
  LANGUAGE_VOICES :: "(string \<times> voice list) list"
  TEMP_FILES :: "(string \<times> string list) list"
  WHISPER_MODEL :: "unit option"
  files :: "string set"

text \<open>What the network gives \<open>load_voices\<close>: whether the connection test succeeds, and
  the provider's list of voices or the message of the exception it raises.\<close>

record network =
  check_internet_connection :: bool
  list_voices :: "string + provider_voice list"

definition use_fallback :: "state \<Rightarrow> state" where
  "use_fallback st =
     st\<lparr>LANGUAGE_VOICES := get_fallback_voices,
        VOICE_DATA := by_display_name (concat (dict_values get_fallback_voices))\<rparr>"

definition load_voices :: "network \<Rightarrow> state \<Rightarrow> state" where
  "load_voices net st =
     (if \<not> check_internet_connection net then use_fallback st
      else case list_voices net of
             Inl e \<Rightarrow> use_fallback st
           | Inr vs \<Rightarrow>
               (let (language_groups, all_voices) = foldl add_voice ([], []) vs
                in st\<lparr>LANGUAGE_VOICES := language_groups,
                      VOICE_DATA := by_display_name all_voices\<rparr>))"

text \<open>The result of a lookup: a descriptor of the table, or the dictionary
  \<open>{'short_name': name}\<close> made up for a name the table does not hold.\<close>

datatype voice_obj = Entry voice | Stub string

fun short_name_of :: "voice_obj \<Rightarrow> string" where
  "short_name_of (Entry v) = short_name v"
| "short_name_of (Stub name) = name"

definition find_voice_by_input :: "state \<Rightarrow> string option \<Rightarrow> voice_obj option" where
  "find_voice_by_input st name_opt =
     (case name_opt of
        None \<Rightarrow> None
      | Some name \<Rightarrow>
          if name = [] then None
          else case map_of (VOICE_DATA st) name of
                 Some v \<Rightarrow> Some (Entry v)
               | None \<Rightarrow>
                   (case find (\<lambda>v. short_name v = name) (dict_values (VOICE_DATA st)) of
                      Some v \<Rightarrow> Some (Entry v)
                    | None \<Rightarrow> Some (Stub name)))"

section \<open>Catalogue endpoints\<close>

record voices_json =
  languages :: "string list"
  voices :: "(string \<times> voice list) list"
  total_voices :: nat
  offline_mode :: bool

definition get_voices :: "state \<Rightarrow> voices_json" where
  "get_voices st =
     \<lparr>languages = dict_keys (LANGUAGE_VOICES st),
      voices = LANGUAGE_VOICES st,
      total_voices = length (VOICE_DATA st),
      offline_mode = (length (LANGUAGE_VOICES st) \<le> 3)\<rparr>"

text \<open>The query parameters of \<open>/api/filter_voices\<close>; an absent parameter takes its default.\<close>

definition filter_voices ::
  "state \<Rightarrow> string option \<Rightarrow> string option \<Rightarrow> string option \<Rightarrow> voice list" where
  "filter_voices st language_arg gender_arg search_arg =
     (let lang = (case language_arg of None \<Rightarrow> ''All'' | Some l \<Rightarrow> l);
          gen = (case gender_arg of None \<Rightarrow> ''All'' | Some g \<Rightarrow> g);
          search = strip (lower (case search_arg of None \<Rightarrow> [] | Some s \<Rightarrow> s));
          source_voices = (if lang = ''All'' then dict_values (VOICE_DATA st)
                           else py_get (LANGUAGE_VOICES st) lang [])
      in filter (\<lambda>voice. \<not> (gen \<noteq> ''All'' \<and> gender voice \<noteq> gen)
                         \<and> \<not> (search \<noteq> [] \<and> \<not> str_in search (lower (display_name voice))))
           source_voices)"

section \<open>Temporary files\<close>

text \<open>
  \<open>tempfile.NamedTemporaryFile(delete=False, suffix='.mp3')\<close> creates a file in the
  temporary directory under the name \<open>tmp\<close> + random characters + \<open>.mp3\<close>. It draws
  names until one does not exist yet (the file is opened with exclusive creation) and
  raises \<open>FileExistsError\<close> when the draws are used up. The draws are the random
  generator's choices of positions in the alphabet, one list for each attempt.
\<close>

definition gettempdir :: string where
  "gettempdir = ''/tmp''"

definition characters :: string where
  "characters = ''abcdefghijklmnopqrstuvwxyz0123456789_''"

definition random_name :: "nat list \<Rightarrow> string" where
  "random_name choices = map (\<lambda>i. characters ! (i mod 37)) choices"

fun NamedTemporaryFile :: "nat list list \<Rightarrow> string set \<Rightarrow> py_error + string" where
  "NamedTemporaryFile [] fs = Inl FileExistsError"
| "NamedTemporaryFile (choices # rest) fs =
     (let file = gettempdir @ ''/'' @ ''tmp'' @ random_name choices @ ''.mp3''
      in if file \<in> fs then NamedTemporaryFile rest fs else Inr file)"

text \<open>\<open>os.path.basename\<close>: the text after the last slash.\<close>

definition basename :: "string \<Rightarrow> string" where
  "basename p = rev (takeWhile (\<lambda>c. c \<noteq> CHR ''/'') (rev p))"

section \<open>Requests and responses\<close>

text \<open>
  What one request meets outside the process: the session cookie the client sends
  (\<open>None\<close> when it holds no \<open>session_id\<close>), the identifier \<open>uuid.uuid4()\<close> would
  give, the random draws of the temporary-file names, the outcome of the synthesis
  provider for a text, a voice and a rate (\<open>None\<close> when the audio is saved, the message
  of the exception otherwise), the paths on which \<open>os.unlink\<close> raises, and the outcome
  of the transcription model (its segments, each a start time in seconds and a text,
  or the message of the exception it raises).
\<close>

record env =
  session_cookie :: "string option"
  uuid4 :: string
  rng :: "nat list list"
  edge_tts :: "string \<Rightarrow> string \<Rightarrow> string \<Rightarrow> string option"
  unlink_error :: "string set"
  whisper_transcribe :: "string + (rat \<times> string) list"

datatype body =
    Error string
  | AudioUrl string
  | AudioUrlFilename string string
  | SendFile string
  | Text string
  | Success
  | Transcript string string string
  | InternalServerError

type_synonym response = "nat \<times> body"

text \<open>
  The JSON body of a synthesis request. A field is absent or holds a string; the speed
  is absent, a number, or a value that \<open>float()\<close> rejects.
\<close>

datatype json_speed = NoSpeed | Speed pyfloat | BadSpeed

record tts_json =
  voice_field :: "string option"
  speed_field :: json_speed
  text_field :: "string option"

text \<open>\<open>float(data.get('speed', 1.0))\<close>; \<open>None\<close> when the conversion raises.\<close>

fun float_of_speed :: "json_speed \<Rightarrow> pyfloat option" where
  "float_of_speed NoSpeed = Some (Fin 1)"
| "float_of_speed (Speed x) = Some x"
| "float_of_speed BadSpeed = None"

fun str_error :: "py_error \<Rightarrow> string" where
  "str_error ValueError = ''cannot convert float NaN to integer''"
| "str_error OverflowError = ''cannot convert float infinity to integer''"
| "str_error FileExistsError = ''[Errno 17] No usable temporary file name found''"

text \<open>\<open>get_session_id\<close> returns the identifier and the cookie the response sets.\<close>

definition get_session_id :: "env \<Rightarrow> string \<times> string option" where
  "get_session_id e =
     (case session_cookie e of
        None \<Rightarrow> (uuid4 e, Some (uuid4 e))
      | Some s \<Rightarrow> (s, Some s))"

section \<open>Artifact registry\<close>

text \<open>The loop of \<open>cleanup_temp_files\<close>: a file that exists is unlinked; an exception
  of \<open>os.unlink\<close> is swallowed and the file stays.\<close>

definition unlink_files :: "string set \<Rightarrow> string list \<Rightarrow> string set \<Rightarrow> string set" where
  "unlink_files failing temp_files fs =
     foldl (\<lambda>fs' temp_file. if temp_file \<in> fs' \<and> temp_file \<notin> failing
                              then fs' - {temp_file} else fs') fs temp_files"

definition cleanup_temp_files :: "env \<Rightarrow> string \<Rightarrow> state \<Rightarrow> state" where
  "cleanup_temp_files e session_id st =
     (case map_of (TEMP_FILES st) session_id of
        None \<Rightarrow> st
      | Some temp_files \<Rightarrow>
          st\<lparr>files := unlink_files (unlink_error e) temp_files (files st),
             TEMP_FILES := dict_del (TEMP_FILES st) session_id\<rparr>)"

text \<open>The registration both synthesis handlers perform:
  \<open>if session_id not in TEMP_FILES: TEMP_FILES[session_id] = []\<close>, then \<open>append\<close>.\<close>

definition register_temp_file ::
  "string \<Rightarrow> string \<Rightarrow> (string \<times> string list) list \<Rightarrow> (string \<times> string list) list" where
  "register_temp_file session_id name temp_files =
     (let t = (if map_of temp_files session_id = None
               then dict_set temp_files session_id [] else temp_files)
      in dict_set t session_id (py_get t session_id [] @ [name]))"

definition send_file :: "state \<Rightarrow> string \<Rightarrow> response" where
  "send_file st path = (if path \<in> files st then (200, SendFile path) else (500, InternalServerError))"

definition serve_audio :: "state \<Rightarrow> string \<Rightarrow> string \<Rightarrow> response" where
  "serve_audio st session_id filename =
     (case map_of (TEMP_FILES st) session_id of
        None \<Rightarrow> (404, Text ''File not found'')
      | Some temp_files \<Rightarrow>
          (case find (\<lambda>temp_file. basename temp_file = filename) temp_files of
             None \<Rightarrow> (404, Text ''File not found'')
           | Some temp_file \<Rightarrow> send_file st temp_file))"

definition cleanup_session :: "env \<Rightarrow> state \<Rightarrow> response \<times> string option \<times> state" where
  "cleanup_session e st =
     (let (session_id, cookie) = get_session_id e
      in ((200, Success), cookie, cleanup_temp_files e session_id st))"

definition cleanup_all :: "env \<Rightarrow> state \<Rightarrow> state" where
  "cleanup_all e st =
     foldl (\<lambda>st' session_id. cleanup_temp_files e session_id st') st (dict_keys (TEMP_FILES st))"

section \<open>Synthesis endpoints\<close>

definition preview_voice :: "env \<Rightarrow> tts_json \<Rightarrow> state \<Rightarrow> response \<times> string option \<times> state" where
  "preview_voice e data st =
     (let voice_input = voice_field data
      in case float_of_speed (speed_field data) of
           None \<Rightarrow> ((500, InternalServerError), session_cookie e, st)
         | Some speed \<Rightarrow>
             (let text = (case text_field data of
                            None \<Rightarrow> ''Hello! This is a preview.'' | Some t \<Rightarrow> t)
              in case find_voice_by_input st voice_input of
                   None \<Rightarrow> ((400, Error ''Invalid voice''), session_cookie e, st)
                 | Some voice_obj \<Rightarrow>
                     (let voice_short = short_name_of voice_obj
                      in case calculate_rate_parameter speed of
                           Inl err \<Rightarrow> ((500, Error (str_error err)), session_cookie e, st)
                         | Inr rate \<Rightarrow>
                             (case NamedTemporaryFile (rng e) (files st) of
                                Inl err \<Rightarrow>
                                  ((500, Error (str_error err)), session_cookie e, st)
                              | Inr temp_file \<Rightarrow>
                                  (let (session_id, cookie) = get_session_id e;
                                       st' = st\<lparr>files := insert temp_file (files st),
                                                TEMP_FILES := register_temp_file session_id
                                                   temp_file (TEMP_FILES st)\<rparr>
                                   in case edge_tts e text voice_short rate of
                                        Some msg \<Rightarrow> ((500, Error msg), cookie, st')
                                      | None \<Rightarrow>
                                          ((200, AudioUrl (''/audio/'' @ session_id @ ''/''
                                                           @ basename temp_file)),
                                           cookie, st'))))))"

definition generate_speech :: "env \<Rightarrow> tts_json \<Rightarrow> state \<Rightarrow> response \<times> string option \<times> state" where
  "generate_speech e data st =
     (let text = strip (case text_field data of None \<Rightarrow> [] | Some t \<Rightarrow> t);
          voice_input = voice_field data
      in case float_of_speed (speed_field data) of
           None \<Rightarrow> ((500, InternalServerError), session_cookie e, st)
         | Some speed \<Rightarrow>
             if text = [] then ((400, Error ''No text provided''), session_cookie e, st)
             else case find_voice_by_input st voice_input of
                    None \<Rightarrow> ((400, Error ''Invalid voice''), session_cookie e, st)
                  | Some voice_obj \<Rightarrow>
                      (let voice_short = short_name_of voice_obj
                       in case calculate_rate_parameter speed of
                            Inl err \<Rightarrow> ((500, Error (str_error err)), session_cookie e, st)
                          | Inr rate \<Rightarrow>
                              (case NamedTemporaryFile (rng e) (files st) of
                                 Inl err \<Rightarrow>
                                   ((500, Error (str_error err)), session_cookie e, st)
                               | Inr temp_file \<Rightarrow>
                                   (let (session_id, cookie) = get_session_id e;
                                        st' = st\<lparr>files := insert temp_file (files st),
                                                 TEMP_FILES := register_temp_file session_id
                                                    temp_file (TEMP_FILES st)\<rparr>
                                    in case edge_tts e text voice_short rate of
                                         Some msg \<Rightarrow> ((500, Error msg), cookie, st')
                                       | None \<Rightarrow>
                                           (let filename = basename temp_file
                                            in ((200, AudioUrlFilename
                                                        (''/audio/'' @ session_id @ ''/''
                                                         @ filename) filename),
                                                cookie, st'))))))"

section \<open>Transcription endpoint\<close>

text \<open>\<open>int(x)\<close> on a float truncates towards zero.\<close>

definition py_int :: "rat \<Rightarrow> int" where
  "py_int r = (if 0 \<le> r then \<lfloor>r\<rfloor> else - \<lfloor>- r\<rfloor>)"

definition pad2 :: "int \<Rightarrow> string" where
  "pad2 n = (if n < 10 then ''0'' @ str_int n else str_int n)"

text \<open>\<open>str(timedelta(seconds=n))\<close>, or the message of the \<open>OverflowError\<close> that
  \<open>timedelta\<close> raises beyond 999999999 days.\<close>

definition timedelta_str :: "int \<Rightarrow> string + string" where
  "timedelta_str n =
     (let days = n div 86400; seconds = n mod 86400;
          mm = seconds div 60; ss = seconds mod 60;
          hh = mm div 60; mi = mm mod 60;
          s = str_int hh @ '':'' @ pad2 mi @ '':'' @ pad2 ss
      in if 999999999 < \<bar>days\<bar>
         then Inl (''days='' @ str_int days @ ''; must have magnitude <= 999999999'')
         else if days \<noteq> 0
         then Inr (str_int days @ '' day'' @ (if \<bar>days\<bar> \<noteq> 1 then ''s'' else [])
                   @ '', '' @ s)
         else Inr s)"

fun transcript_parts :: "(rat \<times> string) list \<Rightarrow> string + string list" where
  "transcript_parts [] = Inr []"
| "transcript_parts ((start, txt) # segments) =
     (case timedelta_str (py_int start) of
        Inl msg \<Rightarrow> Inl msg
      | Inr start_time \<Rightarrow>
          (case transcript_parts segments of
             Inl msg \<Rightarrow> Inl msg
           | Inr parts \<Rightarrow> Inr ((''['' @ start_time @ '']'' @ '' '' @ strip txt) # parts)))"

text \<open>\<open>'\n'.join(parts)\<close>\<close>

fun join_lines :: "string list \<Rightarrow> string" where
  "join_lines [] = []"
| "join_lines [p] = p"
| "join_lines (p # q # ps) = p @ [CHR 0x0A] @ join_lines (q # ps)"

text \<open>The uploaded file of the form field \<open>audio\<close>; only its name is inspected.\<close>

record upload =
  upload_filename :: string

definition transcribe_upload :: "env \<Rightarrow> upload option \<Rightarrow> state \<Rightarrow> response \<times> state" where
  "transcribe_upload e audio st =
     (case audio of
        None \<Rightarrow> ((400, Error ''No audio file provided''), st)
      | Some audio_file \<Rightarrow>
          if upload_filename audio_file = [] then ((400, Error ''No file selected''), st)
          else case WHISPER_MODEL st of
                 None \<Rightarrow>
                   ((200, Transcript ''Mock Engine''
                      ''This is a mock transcription. Install whisper engines for real transcription.''
                      ''Mock transcription text''), st)
               | Some model \<Rightarrow>
                   (case NamedTemporaryFile (rng e) (files st) of
                      Inl err \<Rightarrow> ((500, Error (str_error err)), st)
                    | Inr temp_audio \<Rightarrow>
                        (let st' = st\<lparr>files := insert temp_audio (files st)\<rparr>
                         in case whisper_transcribe e of
                              Inl msg \<Rightarrow> ((500, Error msg), st')
                            | Inr segments \<Rightarrow>
                                (case transcript_parts segments of
                                   Inl msg \<Rightarrow> ((500, Error msg), st')
                                 | Inr parts \<Rightarrow>
                                     (let transcript = join_lines parts
                                      in if temp_audio \<in> unlink_error e
                                         then ((500, Error (''[Errno 13] Permission denied: ''
                                                            @ [CHR 0x27] @ temp_audio @ [CHR 0x27])),
                                               st')
                                         else ((200, Transcript ''Faster Whisper'' transcript
                                                       transcript),
                                               st\<lparr>files := insert temp_audio (files st)
                                                              - {temp_audio}\<rparr>))))))"

section \<open>Runs of the server\<close>

text \<open>
  The requests that change the state, and the state after one of them. Serving a file
  and listing or filtering the catalogue leave the state as it is.
\<close>

datatype request =
    Preview tts_json
  | Generate tts_json
  | TranscribeUpload "upload option"
  | Cleanup
  | LoadVoices network

fun handle :: "env \<Rightarrow> request \<Rightarrow> state \<Rightarrow> state" where
  "handle e (Preview data) st = snd (snd (preview_voice e data st))"
| "handle e (Generate data) st = snd (snd (generate_speech e data st))"
| "handle e (TranscribeUpload audio) st = snd (transcribe_upload e audio st)"
| "handle e Cleanup st = snd (snd (cleanup_session e st))"
| "handle e (LoadVoices net) st = load_voices net st"

fun run :: "(env \<times> request) list \<Rightarrow> state \<Rightarrow> state" where
  "run [] st = st"
| "run ((e, r) # rest) st = run rest (handle e r st)"

text \<open>The process starts with an empty registry.\<close>

inductive reachable :: "state \<Rightarrow> bool" where
  start: "TEMP_FILES st = [] \<Longrightarrow> reachable st"
| step: "reachable st \<Longrightarrow> reachable (handle e r st)"

text \<open>A request purges session \<open>s\<close> when it is a cleanup sent with the cookie of \<open>s\<close>
  (or with no cookie, when the fresh identifier is \<open>s\<close>).\<close>

fun purges :: "string \<Rightarrow> env \<times> request \<Rightarrow> bool" where
  "purges s (e, Cleanup) = (fst (get_session_id e) = s)"
| "purges s (e, _) = False"

text \<open>The paths a session owns, and every registered path.\<close>

definition owned :: "state \<Rightarrow> string \<Rightarrow> string list" where
  "owned st session_id = py_get (TEMP_FILES st) session_id []"

definition registered :: "state \<Rightarrow> string list" where
  "registered st = concat (dict_values (TEMP_FILES st))"

definition is_temp_path :: "string \<Rightarrow> bool" where
  "is_temp_path p =
     (take (length gettempdir + 1) p = gettempdir @ ''/''
      \<and> CHR ''/'' \<notin> set (drop (length gettempdir + 1) p))"

text \<open>
  The invariant of the registry: no path is registered twice, in one session or in two,
  and every registered path is a file of the temporary directory that exists.
\<close>

definition registry_ok :: "state \<Rightarrow> bool" where
  "registry_ok st =
     (distinct (registered st) \<and> list_all (\<lambda>p. p \<in> files st \<and> is_temp_path p) (registered st))"

section \<open>Case variants\<close>


section \<open>Example inputs\<close>

text \<open>Concrete states, environments and requests at which the theorems below are
  evaluated.\<close>

definition initial_state :: state where
  "initial_state =
     \<lparr>VOICE_DATA = [], LANGUAGE_VOICES = [], TEMP_FILES = [], WHISPER_MODEL = None,
      files = {}\<rparr>"

definition no_network :: network where
  "no_network = \<lparr>check_internet_connection = False, list_voices = Inr []\<rparr>"

text \<open>A provider that lists three voices in two languages.\<close>

definition small_provider :: network where
  "small_provider =
     \<lparr>check_internet_connection = True,
      list_voices = Inr
        [[(''Locale'', ''en-US''), (''ShortName'', ''en-US-AvaNeural''),
          (''FriendlyName'', ''Ava''), (''Gender'', ''Female'')],
         [(''Locale'', ''es-ES''), (''ShortName'', ''es-ES-ElviraNeural''),
          (''FriendlyName'', ''Elvira''), (''Gender'', ''Female'')],
         [(''Locale'', ''es-MX''), (''ShortName'', ''es-MX-JorgeNeural''),
          (''FriendlyName'', ''Jorge''), (''Gender'', ''Male'')]]\<rparr>"


text \<open>A client that sends the session cookie \<open>alice\<close>; the provider saves every audio,
  no deletion fails and the transcription model hears nothing.\<close>

definition quiet_env :: env where
  "quiet_env =
     \<lparr>session_cookie = Some ''alice'', uuid4 = ''00000000-0000-4000-8000-000000000001'',
      rng = [[0, 1, 2, 3, 4, 5, 6, 7], [8, 9, 10, 11, 12, 13, 14, 15]],
      edge_tts = (\<lambda>text voice rate. None), unlink_error = {},
      whisper_transcribe = Inr []\<rparr>"

text \<open>The catalogue of \<open>small_provider\<close>, and its voice Ava.\<close>

definition small_catalogue :: state where
  "small_catalogue = load_voices small_provider initial_state"

definition ava :: voice where
  "ava =
     \<lparr>display_name = ''Ava - Female'', short_name = ''en-US-AvaNeural'',
      info = [(''Locale'', ''en-US''), (''ShortName'', ''en-US-AvaNeural''),
              (''FriendlyName'', ''Ava''), (''Gender'', ''Female'')],
      language = ''English'', voice_locale = ''en-US'', gender = ''Female''\<rparr>"

text \<open>The built-in fallback catalogue, and a request for a voice it does not hold.\<close>

definition fallback_catalogue :: state where
  "fallback_catalogue = load_voices no_network initial_state"

definition ryan_request :: tts_json where
  "ryan_request =
     \<lparr>voice_field = Some ''en-GB-RyanNeural'', speed_field = NoSpeed,
      text_field = Some ''Good morning''\<rparr>"



definition textless_request :: tts_json where
  "textless_request =
     \<lparr>voice_field = Some ''en-US-AvaNeural'', speed_field = NoSpeed, text_field = None\<rparr>"


text \<open>A provider that lists two voices under one friendly name and gender.\<close>

definition twin_provider :: network where
  "twin_provider =
     \<lparr>check_internet_connection = True,
      list_voices = Inr
        [[(''Locale'', ''en-US''), (''ShortName'', ''en-US-AvaNeural''),
          (''FriendlyName'', ''Ava''), (''Gender'', ''Female'')],
         [(''Locale'', ''en-US''), (''ShortName'', ''en-US-AvaMultilingualNeural''),
          (''FriendlyName'', ''Ava''), (''Gender'', ''Female'')]]\<rparr>"

definition twin_catalogue :: state where
  "twin_catalogue = load_voices twin_provider initial_state"

text \<open>A second client, with the session cookie \<open>bob\<close>, whose first random draw is the
  one the first client had.\<close>

definition bob_env :: env where
  "bob_env = quiet_env\<lparr>session_cookie := Some ''bob''\<rparr>"

text \<open>The state after the first client has generated one audio, and the state after
  the second client has then asked for a preview.\<close>

definition one_artifact :: state where
  "one_artifact = run [(quiet_env, Generate ryan_request)] fallback_catalogue"

definition two_sessions :: state where
  "two_sessions =
     run [(quiet_env, Generate ryan_request), (bob_env, Preview ryan_request)] fallback_catalogue"

text \<open>Requests that follow without a cleanup by the first client.\<close>

definition busy_trace :: "(env \<times> request) list" where
  "busy_trace =
     [(bob_env, Preview ryan_request), (bob_env, Cleanup), (quiet_env, Preview textless_request),
      (quiet_env, TranscribeUpload None), (bob_env, LoadVoices small_provider)]"

section \<open>Auxiliary facts\<close>


lemma map_of_dict_del_same: "map_of (dict_del d k) k = None"
  by (induction d) (auto simp: dict_del_def)




lemma find_Some_D: "find P xs = Some x \<Longrightarrow> x \<in> set xs \<and> P x"
  by (induction xs) (auto split: if_splits)


lemma dict_set_fresh: "k \<notin> fst ` set d \<Longrightarrow> dict_set d k v = d @ [(k, v)]"
  by (induction d) auto

lemma keys_dict_set: "set (map fst (dict_set d k v)) = insert k (set (map fst d))"
  by (induction d) (force split: if_splits)+

lemma distinct_keys_dict_set: "distinct (map fst d) \<Longrightarrow> distinct (map fst (dict_set d k v))"
proof (induction d)
  case Nil
  then show ?case by simp
next
  case (Cons a d)
  then show ?case
    using keys_dict_set [of d k v] by (cases a) auto
qed

lemma set_dict_set: "set (dict_set d k v) \<subseteq> insert (k, v) (set d)"
  by (induction d) (auto split: if_splits)

lemma foldl_by_display_name_keys:
  "distinct (map fst d) \<Longrightarrow> (\<forall>kv \<in> set d. display_name (snd kv) = fst kv) \<Longrightarrow>
   distinct (map fst (foldl (\<lambda>d v. dict_set d (display_name v) v) d vs))
   \<and> (\<forall>kv \<in> set (foldl (\<lambda>d v. dict_set d (display_name v) v) d vs).
         display_name (snd kv) = fst kv)"
proof (induction vs arbitrary: d)
  case Nil
  then show ?case by simp
next
  case (Cons v vs)
  have "\<forall>kv \<in> set (dict_set d (display_name v) v). display_name (snd kv) = fst kv"
    using Cons.prems(2) set_dict_set [of d "display_name v" v] by auto
  from Cons.IH [OF distinct_keys_dict_set [OF Cons.prems(1)] this] show ?case
    by simp
qed

lemma by_display_name_values_distinct: "distinct (dict_values (by_display_name vs))"
proof -
  let ?d = "by_display_name vs"
  from foldl_by_display_name_keys [of "[]" vs]
  have k: "distinct (map fst ?d)" and n: "\<forall>kv \<in> set ?d. display_name (snd kv) = fst kv"
    by (simp_all add: by_display_name_def)
  from n have eq: "map (\<lambda>kv. display_name (snd kv)) ?d = map fst ?d"
    by (intro map_cong) simp_all
  have "distinct (map (\<lambda>kv. display_name (snd kv)) ?d)"
    unfolding eq by (rule k)
  then have "distinct (map display_name (map snd ?d))"
    by (simp add: comp_def)
  then have "distinct (map snd ?d) \<and> inj_on display_name (set (map snd ?d))"
    by (simp only: distinct_map)
  then show ?thesis
    by (simp add: dict_values_def)
qed

lemma foldl_by_display_name_fresh:
  "distinct (map display_name vs) \<Longrightarrow> display_name ` set vs \<inter> fst ` set d = {} \<Longrightarrow>
   foldl (\<lambda>d v. dict_set d (display_name v) v) d vs = d @ map (\<lambda>v. (display_name v, v)) vs"
proof (induction vs arbitrary: d)
  case Nil
  then show ?case by simp
next
  case (Cons v vs)
  from Cons.prems have fresh: "display_name v \<notin> fst ` set d"
    by auto
  have step: "dict_set d (display_name v) v = d @ [(display_name v, v)]"
    using fresh by (rule dict_set_fresh)
  have "display_name ` set vs \<inter> fst ` set (d @ [(display_name v, v)]) = {}"
    using Cons.prems by auto
  with Cons.prems(1) show ?case
    by (simp add: step Cons.IH)
qed

lemma by_display_name_distinct_names:
  "distinct (map display_name vs) \<Longrightarrow> dict_values (by_display_name vs) = vs"
  using foldl_by_display_name_fresh [of vs "[]"]
  by (simp add: by_display_name_def dict_values_def comp_def)

lemma concat_dict_set_empty:
  "map_of d k = None \<Longrightarrow> concat (map snd (dict_set d k [])) = concat (map snd d)"
  by (induction d) (auto split: if_splits)

lemma py_get_dict_set_empty: "map_of d k = None \<Longrightarrow> py_get (dict_set d k []) k [] = []"
  by (induction d) (auto simp: py_get_def split: if_splits)

lemma mset_dict_set_append:
  "mset (concat (map snd (dict_set d k (py_get d k [] @ [x]))))
     = mset (concat (map snd d)) + {#x#}"
  by (induction d) (auto simp: py_get_def)

lemma dict_set_twice: "dict_set (dict_set d k u) k v = dict_set d k v"
  by (induction d) auto

lemma mset_group_append:
  "mset (concat (map snd (group_append g k x))) = mset (concat (map snd g)) + {#x#}"
proof (cases "map_of g k")
  case None
  have "mset (concat (map snd (group_append g k x)))
          = mset (concat (map snd (dict_set (dict_set g k [])  k (py_get (dict_set g k []) k [] @ [x]))))"
    using None by (simp add: group_append_def Let_def)
  also have "\<dots> = mset (concat (map snd (dict_set g k []))) + {#x#}"
    by (rule mset_dict_set_append)
  finally show ?thesis
    using None by (simp add: concat_dict_set_empty)
next
  case (Some l)
  then show ?thesis
    by (simp add: group_append_def Let_def mset_dict_set_append)
qed

lemma foldl_add_voice:
  "snd (foldl add_voice (g, a) vs) = a @ List.map_filter voice_data_of vs
   \<and> mset (concat (map snd (fst (foldl add_voice (g, a) vs))))
       = mset (concat (map snd g)) + mset (List.map_filter voice_data_of vs)"
proof (induction vs arbitrary: g a)
  case Nil
  then show ?case by (simp add: List.map_filter_simps)
next
  case (Cons v vs)
  show ?case
  proof (cases "voice_data_of v")
    case None
    then show ?thesis
      using Cons.IH [of g a] by (simp add: List.map_filter_simps)
  next
    case (Some w)
    then show ?thesis
      using Cons.IH [of "group_append g (language w) w" "a @ [w]"]
      by (simp add: List.map_filter_simps mset_group_append)
  qed
qed

lemma filter_voices_all: "filter_voices st (Some ''All'') (Some ''All'') (Some []) = dict_values (VOICE_DATA st)"
  by (simp add: filter_voices_def strip_def lower_def)

section \<open>Facts about the registry\<close>

lemma map_of_dict_set: "map_of (dict_set d k v) = (map_of d)(k \<mapsto> v)"
  by (induction d) (auto simp: fun_eq_iff)

lemma map_of_dict_del: "map_of (dict_del d k) k' = (if k' = k then None else map_of d k')"
  by (induction d) (auto simp: dict_del_def)

lemma map_of_register:
  "map_of (register_temp_file s p d) s'
     = (if s' = s then Some (py_get d s [] @ [p]) else map_of d s')"
  by (auto simp: register_temp_file_def Let_def map_of_dict_set py_get_def)

lemma mset_register:
  "mset (concat (map snd (register_temp_file s p d))) = mset (concat (map snd d)) + {#p#}"
proof (cases "map_of d s")
  case None
  have "mset (concat (map snd (register_temp_file s p d)))
          = mset (concat (map snd (dict_set (dict_set d s []) s
                                     (py_get (dict_set d s []) s [] @ [p]))))"
    using None by (simp add: register_temp_file_def Let_def)
  also have "\<dots> = mset (concat (map snd (dict_set d s []))) + {#p#}"
    by (rule mset_dict_set_append)
  finally show ?thesis
    using None by (simp add: concat_dict_set_empty)
next
  case (Some l)
  then show ?thesis
    by (simp add: register_temp_file_def Let_def mset_dict_set_append)
qed

lemma set_register:
  "set (concat (map snd (register_temp_file s p d))) = insert p (set (concat (map snd d)))"
proof -
  have "set_mset (mset (concat (map snd (register_temp_file s p d))))
          = set_mset (mset (concat (map snd d)) + {#p#})"
    by (simp only: mset_register)
  then show ?thesis
    by simp
qed

lemma distinct_register:
  "distinct (concat (map snd (register_temp_file s p d)))
     = (distinct (concat (map snd d)) \<and> p \<notin> set (concat (map snd d)))"
proof -
  have "mset (concat (map snd (register_temp_file s p d))) = mset (concat (map snd d) @ [p])"
    by (simp add: mset_register)
  then have "distinct (concat (map snd (register_temp_file s p d)))
               = distinct (concat (map snd d) @ [p])"
    by (rule mset_eq_imp_distinct_iff)
  then show ?thesis
    by auto
qed

lemma characters_no_slash: "c \<in> set characters \<Longrightarrow> c \<noteq> CHR ''/''"
  by (auto simp: characters_def)

lemma random_name_no_slash: "CHR ''/'' \<notin> set (random_name choices)"
proof
  assume "CHR ''/'' \<in> set (random_name choices)"
  then obtain i where "characters ! (i mod 37) = CHR ''/''"
    by (auto simp: random_name_def)
  moreover have "characters ! (i mod 37) \<in> set characters"
    by (rule nth_mem) (simp add: characters_def)
  ultimately show False
    using characters_no_slash by metis
qed

lemma is_temp_path_candidate:
  "is_temp_path (gettempdir @ ''/'' @ ''tmp'' @ random_name choices @ ''.mp3'')"
  using random_name_no_slash [of choices]
  by (simp add: is_temp_path_def gettempdir_def)

lemma NamedTemporaryFile_fresh:
  "NamedTemporaryFile draws fs = Inr p \<Longrightarrow> p \<notin> fs \<and> is_temp_path p"
proof (induction draws)
  case Nil
  then show ?case by simp
next
  case (Cons choices rest)
  then show ?case
    using is_temp_path_candidate [of choices]
    by (auto simp: Let_def split: if_splits)
qed

lemma basename_no_slash: "CHR ''/'' \<notin> set b \<Longrightarrow> basename (pre @ ''/'' @ b) = b"
proof -
  assume "CHR ''/'' \<notin> set b"
  then have "\<forall>c \<in> set (rev b). c \<noteq> CHR ''/''"
    by auto
  then have "takeWhile (\<lambda>c. c \<noteq> CHR ''/'') (rev b @ CHR ''/'' # rev pre)
               = rev b @ takeWhile (\<lambda>c. c \<noteq> CHR ''/'') (CHR ''/'' # rev pre)"
    by (intro takeWhile_append2) simp
  then show ?thesis
    by (simp add: basename_def)
qed

lemma is_temp_path_basename:
  assumes "is_temp_path p"
  shows "gettempdir @ ''/'' @ basename p = p"
proof -
  let ?n = "length gettempdir + 1"
  from assms have pre: "take ?n p = gettempdir @ ''/''" and b: "CHR ''/'' \<notin> set (drop ?n p)"
    by (simp_all add: is_temp_path_def)
  have "take ?n p @ drop ?n p = p"
    by (rule append_take_drop_id)
  then have p: "gettempdir @ ''/'' @ drop ?n p = p"
    by (simp only: pre append_assoc)
  have "basename (gettempdir @ ''/'' @ drop ?n p) = drop ?n p"
    using b by (rule basename_no_slash)
  then have "basename p = drop ?n p"
    by (simp only: p)
  then show ?thesis
    by (simp only: p)
qed

lemma basename_inj:
  assumes "is_temp_path p" "is_temp_path q" "basename p = basename q"
  shows "p = q"
proof -
  have "p = gettempdir @ ''/'' @ basename p"
    by (rule is_temp_path_basename [OF assms(1), symmetric])
  also have "\<dots> = gettempdir @ ''/'' @ basename q"
    by (simp only: assms(3))
  also have "\<dots> = q"
    by (rule is_temp_path_basename [OF assms(2)])
  finally show ?thesis .
qed

lemma owned_registered:
  "map_of (TEMP_FILES st) s = Some l \<Longrightarrow> set l \<subseteq> set (registered st)"
  by (force simp: registered_def dict_values_def dest: map_of_SomeD)

lemma owned_Some: "p \<in> set (owned st s) \<Longrightarrow> \<exists>l. map_of (TEMP_FILES st) s = Some l \<and> p \<in> set l"
  by (cases "map_of (TEMP_FILES st) s") (auto simp: owned_def py_get_def)

lemma find_unique:
  assumes "p \<in> set l" and "\<forall>q \<in> set l. P q \<longrightarrow> q = p" and "P p"
  shows "find P l = Some p"
  using assms(1,2)
proof (induction l)
  case Nil
  then show ?case by simp
next
  case (Cons a l)
  show ?case
  proof (cases "P a")
    case True
    with Cons.prems(2) have "a = p"
      by simp
    with True show ?thesis
      by simp
  next
    case False
    with assms(3) have "a \<noteq> p"
      by blast
    with Cons.prems have "p \<in> set l" "\<forall>q \<in> set l. P q \<longrightarrow> q = p"
      by simp_all
    with Cons.IH False show ?thesis
      by simp
  qed
qed

lemma registry_ok_D:
  "registry_ok st \<Longrightarrow> p \<in> set (registered st) \<Longrightarrow> p \<in> files st \<and> is_temp_path p"
  by (auto simp: registry_ok_def list_all_iff)

lemma serve_owned:
  assumes ok: "registry_ok st" and p: "p \<in> set (owned st s)"
  shows "serve_audio st s (basename p) = (200, SendFile p)"
proof -
  from p obtain l where l: "map_of (TEMP_FILES st) s = Some l" and pl: "p \<in> set l"
    using owned_Some by blast
  have reg: "q \<in> set l \<Longrightarrow> q \<in> files st \<and> is_temp_path q" for q
    using registry_ok_D [OF ok] owned_registered [OF l] by blast
  have "find (\<lambda>temp_file. basename temp_file = basename p) l = Some p"
  proof (rule find_unique [OF pl])
    show "\<forall>q \<in> set l. basename q = basename p \<longrightarrow> q = p"
      using reg pl basename_inj by blast
  qed simp
  then show ?thesis
    using reg [OF pl] by (simp add: serve_audio_def l send_file_def)
qed

lemma disjoint_entries:
  "distinct (concat (map snd d)) \<Longrightarrow> map_of d a = Some la \<Longrightarrow> map_of d b = Some lb \<Longrightarrow>
   a \<noteq> b \<Longrightarrow> set la \<inter> set lb = {}"
proof (induction d)
  case Nil
  then show ?case by simp
next
  case (Cons kv d)
  obtain k v where kv: "kv = (k, v)"
    by (cases kv)
  have sub: "map_of d c = Some l \<Longrightarrow> set l \<subseteq> set (concat (map snd d))" for c l
    by (force dest: map_of_SomeD)
  from Cons.prems(1) kv have dv: "set v \<inter> set (concat (map snd d)) = {}"
    and dd: "distinct (concat (map snd d))"
    by auto
  consider (a) "a = k" | (b) "b = k" | (rest) "a \<noteq> k" "b \<noteq> k"
    by blast
  then show ?case
  proof cases
    case a
    with Cons.prems kv have "la = v" "map_of d b = Some lb"
      by auto
    with dv sub [of b lb] show ?thesis
      by blast
  next
    case b
    with Cons.prems kv have "lb = v" "map_of d a = Some la"
      by auto
    with dv sub [of a la] show ?thesis
      by blast
  next
    case rest
    with Cons.prems kv have "map_of d a = Some la" "map_of d b = Some lb"
      by auto
    with Cons.IH [OF dd] Cons.prems(4) show ?thesis
      by blast
  qed
qed

lemma owned_disjoint:
  assumes "registry_ok st" "a \<noteq> b" "p \<in> set (owned st a)"
  shows "p \<notin> set (owned st b)"
proof
  assume "p \<in> set (owned st b)"
  with assms(3) obtain la lb where "map_of (TEMP_FILES st) a = Some la" "p \<in> set la"
    "map_of (TEMP_FILES st) b = Some lb" "p \<in> set lb"
    using owned_Some by blast
  moreover have "distinct (concat (map snd (TEMP_FILES st)))"
    using assms(1) by (simp add: registry_ok_def registered_def dict_values_def)
  ultimately show False
    using disjoint_entries [of "TEMP_FILES st" a la b lb] assms(2) by blast
qed

lemma registry_okI:
  "distinct (registered st) \<Longrightarrow> (\<And>p. p \<in> set (registered st) \<Longrightarrow> p \<in> files st \<and> is_temp_path p)
   \<Longrightarrow> registry_ok st"
  by (simp add: registry_ok_def list_all_iff)

lemma registry_ok_register:
  assumes ok: "registry_ok st" and fresh: "p \<notin> files st" and tp: "is_temp_path p"
  shows "registry_ok (st\<lparr>files := insert p (files st),
                          TEMP_FILES := register_temp_file s p (TEMP_FILES st)\<rparr>)"
proof (rule registry_okI)
  have notreg: "p \<notin> set (registered st)"
    using registry_ok_D [OF ok] fresh by blast
  show "distinct (registered (st\<lparr>files := insert p (files st),
                          TEMP_FILES := register_temp_file s p (TEMP_FILES st)\<rparr>))"
    using ok notreg
    by (simp add: registered_def dict_values_def distinct_register registry_ok_def)
  fix q
  assume "q \<in> set (registered (st\<lparr>files := insert p (files st),
                          TEMP_FILES := register_temp_file s p (TEMP_FILES st)\<rparr>))"
  then have "q = p \<or> q \<in> set (registered st)"
    using set_register [of s p "TEMP_FILES st"] by (auto simp: registered_def dict_values_def)
  then show "q \<in> files (st\<lparr>files := insert p (files st),
                          TEMP_FILES := register_temp_file s p (TEMP_FILES st)\<rparr>) \<and> is_temp_path q"
    using registry_ok_D [OF ok] tp by auto
qed

lemma synthesis_state:
  "snd (snd (preview_voice e data st)) = st
   \<or> (\<exists>p. NamedTemporaryFile (rng e) (files st) = Inr p
          \<and> snd (snd (preview_voice e data st))
              = st\<lparr>files := insert p (files st),
                   TEMP_FILES := register_temp_file (fst (get_session_id e)) p (TEMP_FILES st)\<rparr>)"
  "snd (snd (generate_speech e data st)) = st
   \<or> (\<exists>p. NamedTemporaryFile (rng e) (files st) = Inr p
          \<and> snd (snd (generate_speech e data st))
              = st\<lparr>files := insert p (files st),
                   TEMP_FILES := register_temp_file (fst (get_session_id e)) p (TEMP_FILES st)\<rparr>)"
  by (auto simp: preview_voice_def generate_speech_def Let_def split_beta
        split: option.splits sum.splits)

lemma transcribe_state:
  "TEMP_FILES (snd (transcribe_upload e audio st)) = TEMP_FILES st
   \<and> files st \<subseteq> files (snd (transcribe_upload e audio st))"
  by (auto simp: transcribe_upload_def Let_def split: option.splits sum.splits
        dest: NamedTemporaryFile_fresh)

lemma unlink_files_keeps:
  "x \<in> fs \<Longrightarrow> x \<notin> set temp_files \<Longrightarrow> x \<in> unlink_files failing temp_files fs"
  unfolding unlink_files_def
  by (induction temp_files arbitrary: fs) auto

lemma concat_dict_del:
  "distinct (concat (map snd d)) \<Longrightarrow> distinct (concat (map snd (dict_del d k)))"
  "set (concat (map snd (dict_del d k))) \<subseteq> set (concat (map snd d))"
  by (induction d) (auto simp: dict_del_def)

lemma dict_del_disjoint:
  "distinct (concat (map snd d)) \<Longrightarrow> map_of d k = Some l \<Longrightarrow>
   set (concat (map snd (dict_del d k))) \<inter> set l = {}"
proof (induction d)
  case Nil
  then show ?case by simp
next
  case (Cons kv d)
  obtain k' v where kv: "kv = (k', v)"
    by (cases kv)
  from Cons.prems(1) kv have dv: "set v \<inter> set (concat (map snd d)) = {}"
    and dd: "distinct (concat (map snd d))"
    by auto
  show ?case
  proof (cases "k' = k")
    case True
    with Cons.prems(2) kv have "l = v"
      by simp
    with True kv dv concat_dict_del(2) [of d k] show ?thesis
      by (auto simp: dict_del_def)
  next
    case False
    with Cons.prems(2) kv have l: "map_of d k = Some l"
      by simp
    then have "set l \<subseteq> set (concat (map snd d))"
      by (force dest: map_of_SomeD)
    with dv Cons.IH [OF dd l] False kv show ?thesis
      by (auto simp: dict_del_def)
  qed
qed

lemma registry_ok_cleanup:
  assumes ok: "registry_ok st"
  shows "registry_ok (cleanup_temp_files e s st)"
proof (cases "map_of (TEMP_FILES st) s")
  case None
  then show ?thesis
    using ok by (simp add: cleanup_temp_files_def)
next
  case (Some l)
  let ?st = "cleanup_temp_files e s st"
  have T: "TEMP_FILES ?st = dict_del (TEMP_FILES st) s"
    and F: "files ?st = unlink_files (unlink_error e) l (files st)"
    using Some by (simp_all add: cleanup_temp_files_def)
  have d: "distinct (concat (map snd (TEMP_FILES st)))"
    using ok by (simp add: registry_ok_def registered_def dict_values_def)
  show ?thesis
  proof (rule registry_okI)
    show "distinct (registered ?st)"
      using concat_dict_del(1) [OF d] by (simp add: registered_def dict_values_def T)
    fix q
    assume "q \<in> set (registered ?st)"
    then have q: "q \<in> set (concat (map snd (dict_del (TEMP_FILES st) s)))"
      by (simp add: registered_def dict_values_def T)
    then have "q \<in> set (registered st)"
      using concat_dict_del(2) [of "TEMP_FILES st" s]
      by (auto simp: registered_def dict_values_def)
    then have "q \<in> files st" and tp: "is_temp_path q"
      using registry_ok_D [OF ok] by blast+
    moreover have "q \<notin> set l"
      using dict_del_disjoint [OF d Some] q by blast
    ultimately have "q \<in> files ?st"
      by (simp add: F unlink_files_keeps)
    with tp show "q \<in> files ?st \<and> is_temp_path q"
      by simp
  qed
qed

lemma registry_ok_allocated:
  assumes ok: "registry_ok st"
    and st': "st' = st \<or> (\<exists>p. NamedTemporaryFile draws (files st) = Inr p
                \<and> st' = st\<lparr>files := insert p (files st),
                             TEMP_FILES := register_temp_file s p (TEMP_FILES st)\<rparr>)"
  shows "registry_ok st'"
proof -
  from st' consider "st' = st"
    | p where "NamedTemporaryFile draws (files st) = Inr p"
        "st' = st\<lparr>files := insert p (files st),
                   TEMP_FILES := register_temp_file s p (TEMP_FILES st)\<rparr>"
    by blast
  then show ?thesis
  proof cases
    case 1
    with ok show ?thesis
      by simp
  next
    case 2
    from NamedTemporaryFile_fresh [OF 2(1)] have "p \<notin> files st" "is_temp_path p"
      by simp_all
    with ok show ?thesis
      unfolding 2(2) by (rule registry_ok_register)
  qed
qed

lemma registry_ok_handle: "registry_ok st \<Longrightarrow> registry_ok (handle e r st)"
proof (cases r)
  case (Preview data)
  assume ok: "registry_ok st"
  show ?thesis
    unfolding Preview handle.simps
    by (rule registry_ok_allocated [OF ok synthesis_state(1)])
next
  case (Generate data)
  assume ok: "registry_ok st"
  show ?thesis
    unfolding Generate handle.simps
    by (rule registry_ok_allocated [OF ok synthesis_state(2)])
next
  case (TranscribeUpload audio)
  assume ok: "registry_ok st"
  show ?thesis
    using ok transcribe_state [of e audio st] TranscribeUpload
    by (auto simp: registry_ok_def registered_def list_all_iff)
next
  case Cleanup
  assume ok: "registry_ok st"
  then show ?thesis
    using Cleanup by (simp add: cleanup_session_def split_beta registry_ok_cleanup)
next
  case (LoadVoices net)
  assume ok: "registry_ok st"
  then show ?thesis
    using LoadVoices
    by (auto simp: load_voices_def use_fallback_def registry_ok_def registered_def split_beta
          split: sum.splits)
qed

lemma reachable_registry_ok: "reachable st \<Longrightarrow> registry_ok st"
proof (induction rule: reachable.induct)
  case (start st)
  then show ?case
    by (simp add: registry_ok_def registered_def dict_values_def)
next
  case (step st e r)
  then show ?case
    by (simp add: registry_ok_handle)
qed

lemma reachable_run: "reachable st \<Longrightarrow> reachable (run trace st)"
proof (induction trace arbitrary: st)
  case Nil
  then show ?case by simp
next
  case (Cons a trace)
  obtain e r where a: "a = (e, r)"
    by (cases a)
  from Cons.prems have "reachable (handle e r st)"
    by (rule reachable.step)
  with Cons.IH a show ?case
    by simp
qed

lemma owned_register:
  "owned (st\<lparr>files := fs, TEMP_FILES := register_temp_file s p (TEMP_FILES st)\<rparr>) s'
     = (if s' = s then owned st s @ [p] else owned st s')"
  by (simp add: owned_def py_get_def map_of_register)

lemma owned_handle:
  assumes "p \<in> set (owned st s)" and "\<not> purges s (e, r)"
  shows "p \<in> set (owned (handle e r st) s)"
proof (cases r)
  case (Preview data)
  from synthesis_state(1) [of e data st] show ?thesis
    using assms(1) Preview by (auto simp: owned_register)
next
  case (Generate data)
  from synthesis_state(2) [of e data st] show ?thesis
    using assms(1) Generate by (auto simp: owned_register)
next
  case (TranscribeUpload audio)
  then show ?thesis
    using assms(1) transcribe_state [of e audio st] by (simp add: owned_def)
next
  case Cleanup
  with assms(2) have ne: "fst (get_session_id e) \<noteq> s"
    by simp
  have "map_of (TEMP_FILES (cleanup_temp_files e (fst (get_session_id e)) st)) s
          = map_of (TEMP_FILES st) s"
    using ne by (cases "map_of (TEMP_FILES st) (fst (get_session_id e))")
                (simp_all add: cleanup_temp_files_def map_of_dict_del)
  then show ?thesis
    using assms(1) Cleanup by (simp add: owned_def py_get_def cleanup_session_def split_beta)
next
  case (LoadVoices net)
  then show ?thesis
    using assms(1)
    by (auto simp: load_voices_def use_fallback_def owned_def split_beta split: sum.splits)
qed

lemma owned_run:
  "p \<in> set (owned st s) \<Longrightarrow> \<forall>x \<in> set trace. \<not> purges s x \<Longrightarrow> p \<in> set (owned (run trace st) s)"
proof (induction trace arbitrary: st)
  case Nil
  then show ?case by simp
next
  case (Cons a trace)
  obtain e r where a: "a = (e, r)"
    by (cases a)
  from Cons.prems a have "p \<in> set (owned (handle e r st) s)"
    by (intro owned_handle) simp_all
  with Cons.IH [of "handle e r st"] Cons.prems(2) a show ?case
    by simp
qed

lemma serve_audio_SendFile:
  "serve_audio st s f = (200, SendFile p) \<Longrightarrow> p \<in> set (owned st s)"
  by (auto simp: serve_audio_def send_file_def owned_def py_get_def
        split: option.splits if_splits dest: find_Some_D)

lemma serve_audio_404:
  "\<forall>q \<in> set (owned st s). basename q \<noteq> f \<Longrightarrow> serve_audio st s f = (404, Text ''File not found'')"
proof (cases "map_of (TEMP_FILES st) s")
  case None
  then show ?thesis
    by (simp add: serve_audio_def)
next
  case (Some l)
  assume "\<forall>q \<in> set (owned st s). basename q \<noteq> f"
  with Some have "find (\<lambda>temp_file. basename temp_file = f) l = None"
    by (simp add: find_None_iff owned_def py_get_def)
  with Some show ?thesis
    by (simp add: serve_audio_def)
qed

lemma TEMP_FILES_fallback: "TEMP_FILES fallback_catalogue = []"
  by (simp add: fallback_catalogue_def load_voices_def no_network_def use_fallback_def
        initial_state_def)

lemma synthesis_response:
  "fst (fst (preview_voice e data st)) = 200 \<Longrightarrow>
     \<exists>p. NamedTemporaryFile (rng e) (files st) = Inr p
       \<and> snd (fst (preview_voice e data st))
           = AudioUrl (''/audio/'' @ fst (get_session_id e) @ ''/'' @ basename p)
       \<and> snd (snd (preview_voice e data st))
           = st\<lparr>files := insert p (files st),
                TEMP_FILES := register_temp_file (fst (get_session_id e)) p (TEMP_FILES st)\<rparr>"
  "fst (fst (generate_speech e data st)) = 200 \<Longrightarrow>
     \<exists>p. NamedTemporaryFile (rng e) (files st) = Inr p
       \<and> snd (fst (generate_speech e data st))
           = AudioUrlFilename (''/audio/'' @ fst (get_session_id e) @ ''/'' @ basename p)
               (basename p)
       \<and> snd (snd (generate_speech e data st))
           = st\<lparr>files := insert p (files st),
                TEMP_FILES := register_temp_file (fst (get_session_id e)) p (TEMP_FILES st)\<rparr>"
  by (auto simp: preview_voice_def generate_speech_def Let_def split_beta
        split: option.splits sum.splits if_splits)

lemma allocated_servable:
  assumes ok: "registry_ok st"
    and st': "st' = st \<or> (\<exists>q. NamedTemporaryFile draws (files st) = Inr q
                \<and> st' = st\<lparr>files := insert q (files st),
                             TEMP_FILES := register_temp_file s q (TEMP_FILES st)\<rparr>)"
    and new: "p \<in> files st'" "p \<notin> files st"
  shows "p \<in> set (owned st' s) \<and> p \<notin> set (registered st)
         \<and> serve_audio st' s (basename p) = (200, SendFile p)"
proof -
  from st' new obtain q where q: "NamedTemporaryFile draws (files st) = Inr q"
    and eq: "st' = st\<lparr>files := insert q (files st),
                       TEMP_FILES := register_temp_file s q (TEMP_FILES st)\<rparr>"
    by blast
  from new eq have pq: "p = q"
    by simp
  have own: "p \<in> set (owned st' s)"
    unfolding eq pq by (simp add: owned_register)
  have ok': "registry_ok st'"
    using ok st' by (rule registry_ok_allocated)
  have "p \<notin> set (registered st)"
    using registry_ok_D [OF ok] new(2) by blast
  with own serve_owned [OF ok' own] show ?thesis
    by simp
qed

section \<open>Purge\<close>

text \<open>
  C1. Once \<open>cleanup_temp_files\<close> has returned for a session, \<open>serve_audio\<close> answers 404
  for that session and every file name, whatever \<open>os.unlink\<close> did (the set
  \<open>unlink_error e\<close> of failing paths is arbitrary) and whatever files still exist: the
  session's key leaves \<open>TEMP_FILES\<close> unconditionally. The same holds through the
  \<open>/api/cleanup\<close> handler, which answers success.
\<close>

theorem purge_then_serve_not_found:
  "serve_audio (cleanup_temp_files e s st) s b = (404, Text ''File not found'')
   \<and> fst (cleanup_session e st) = (200, Success)
   \<and> serve_audio (snd (snd (cleanup_session e st))) (fst (get_session_id e)) b
       = (404, Text ''File not found'')"
proof -
  have gone: "map_of (TEMP_FILES (cleanup_temp_files e' s' st)) s' = None" for e' s'
    by (cases "map_of (TEMP_FILES st) s'")
       (simp_all add: cleanup_temp_files_def map_of_dict_del_same)
  have serve: "serve_audio (cleanup_temp_files e' s' st) s' b = (404, Text ''File not found'')"
    for e' s'
    by (simp add: serve_audio_def gone)
  show ?thesis
    by (simp add: serve cleanup_session_def split_beta)
qed

section \<open>Session isolation\<close>

text \<open>
  C2. In every state the server can reach, a path owned by session \<open>A\<close> is not served
  under another session \<open>B\<close>: the request for its very base name under \<open>B\<close> is answered
  404, and no file name makes \<open>serve_audio\<close> send that path for \<open>B\<close>. The answer for
  \<open>B\<close> is determined by the entry of \<open>B\<close> in \<open>TEMP_FILES\<close> (and the files that exist): no
  other session's entry is consulted.
\<close>

theorem cross_session_not_servable:
  assumes "reachable st" and "A \<noteq> B" and "p \<in> set (owned st A)"
  shows "serve_audio st B (basename p) = (404, Text ''File not found'')
         \<and> (\<forall>f. serve_audio st B f \<noteq> (200, SendFile p))
         \<and> (\<forall>f st'. map_of (TEMP_FILES st') B = map_of (TEMP_FILES st) B \<longrightarrow>
                files st' = files st \<longrightarrow> serve_audio st' B f = serve_audio st B f)"
proof (intro conjI allI impI)
  have ok: "registry_ok st"
    using assms(1) by (rule reachable_registry_ok)
  have notB: "p \<notin> set (owned st B)"
    using ok assms(2,3) by (rule owned_disjoint)
  have temp: "q \<in> set (owned st s) \<Longrightarrow> is_temp_path q" for q s
    using registry_ok_D [OF ok, of q] owned_Some [of q st s] owned_registered [of st s] by blast
  have "\<forall>q \<in> set (owned st B). basename q \<noteq> basename p"
  proof
    fix q
    assume q: "q \<in> set (owned st B)"
    show "basename q \<noteq> basename p"
    proof
      assume "basename q = basename p"
      with temp [OF q] temp [OF assms(3)] have "q = p"
        by (rule basename_inj)
      with q notB show False
        by simp
    qed
  qed
  then show "serve_audio st B (basename p) = (404, Text ''File not found'')"
    by (rule serve_audio_404)
  show "serve_audio st B f \<noteq> (200, SendFile p)" for f
    using notB serve_audio_SendFile by blast
next
  fix f and st' :: state
  assume "map_of (TEMP_FILES st') B = map_of (TEMP_FILES st) B" "files st' = files st"
  then show "serve_audio st' B f = serve_audio st B f"
    by (simp add: serve_audio_def send_file_def split: option.split)
qed

theorem cross_session_not_servable_witness:
  "reachable two_sessions
   \<and> ''alice'' \<noteq> ''bob''
   \<and> ''/tmp/tmpabcdefgh.mp3'' \<in> set (owned two_sessions ''alice'')
   \<and> basename ''/tmp/tmpabcdefgh.mp3'' = ''tmpabcdefgh.mp3''
   \<and> serve_audio two_sessions ''bob'' (basename ''/tmp/tmpabcdefgh.mp3'')
       = (404, Text ''File not found'')
   \<and> serve_audio two_sessions ''alice'' ''tmpabcdefgh.mp3'' = (200, SendFile ''/tmp/tmpabcdefgh.mp3'')
   \<and> serve_audio two_sessions ''bob'' ''tmpijklmnop.mp3'' = (200, SendFile ''/tmp/tmpijklmnop.mp3'')"
proof -
  have r: "reachable two_sessions"
    unfolding two_sessions_def
    by (rule reachable_run [OF reachable.start [OF TEMP_FILES_fallback]])
  have ne: "''alice'' \<noteq> ''bob''"
    by simp
  have own: "''/tmp/tmpabcdefgh.mp3'' \<in> set (owned two_sessions ''alice'')"
    by code_simp
  have b: "basename ''/tmp/tmpabcdefgh.mp3'' = ''tmpabcdefgh.mp3''"
    by code_simp
  have a: "serve_audio two_sessions ''alice'' ''tmpabcdefgh.mp3''
             = (200, SendFile ''/tmp/tmpabcdefgh.mp3'')"
    by code_simp
  have c: "serve_audio two_sessions ''bob'' ''tmpijklmnop.mp3''
             = (200, SendFile ''/tmp/tmpijklmnop.mp3'')"
    by code_simp
  note res = cross_session_not_servable [OF r ne own, THEN conjunct1]
  show ?thesis
    by (intro conjI) (fact r ne own b res a c)+
qed

section \<open>Allocation and serving\<close>

text \<open>
  C3. In every state the server can reach: a file that \<open>/api/preview\<close> or
  \<open>/api/generate\<close> creates is registered under the session of the request and is served
  under that session and its base name; it differs from every path registered so far, so
  that two allocations, the first still registered, give distinct paths (the
  temporary-file facility never returns a path that exists). A response with status 200
  carries the URL of such a new file. And a path a session owns stays owned and served
  through every run of requests that holds no cleanup by that session.
\<close>

theorem artifact_registered_until_purge:
  assumes "reachable st"
  shows "(\<forall>p. p \<in> files (snd (snd (preview_voice e data st))) \<longrightarrow> p \<notin> files st \<longrightarrow>
            p \<in> set (owned (snd (snd (preview_voice e data st))) (fst (get_session_id e)))
            \<and> p \<notin> set (registered st)
            \<and> serve_audio (snd (snd (preview_voice e data st))) (fst (get_session_id e))
                 (basename p) = (200, SendFile p))
         \<and> (\<forall>p. p \<in> files (snd (snd (generate_speech e data st))) \<longrightarrow> p \<notin> files st \<longrightarrow>
            p \<in> set (owned (snd (snd (generate_speech e data st))) (fst (get_session_id e)))
            \<and> p \<notin> set (registered st)
            \<and> serve_audio (snd (snd (generate_speech e data st))) (fst (get_session_id e))
                 (basename p) = (200, SendFile p))
         \<and> (fst (fst (preview_voice e data st)) = 200 \<longrightarrow>
              (\<exists>p. p \<in> files (snd (snd (preview_voice e data st))) \<and> p \<notin> files st
                 \<and> snd (fst (preview_voice e data st))
                     = AudioUrl (''/audio/'' @ fst (get_session_id e) @ ''/'' @ basename p)))
         \<and> (fst (fst (generate_speech e data st)) = 200 \<longrightarrow>
              (\<exists>p. p \<in> files (snd (snd (generate_speech e data st))) \<and> p \<notin> files st
                 \<and> snd (fst (generate_speech e data st))
                     = AudioUrlFilename (''/audio/'' @ fst (get_session_id e) @ ''/'' @ basename p)
                         (basename p)))
         \<and> (\<forall>s p trace. p \<in> set (owned st s) \<longrightarrow> list_all (\<lambda>x. \<not> purges s x) trace \<longrightarrow>
              p \<in> set (owned (run trace st) s)
              \<and> serve_audio (run trace st) s (basename p) = (200, SendFile p))"
proof (intro conjI allI impI)
  have ok: "registry_ok st"
    using assms by (rule reachable_registry_ok)
  {
    fix p
    assume "p \<in> files (snd (snd (preview_voice e data st)))" "p \<notin> files st"
    with allocated_servable [OF ok synthesis_state(1)]
    have *: "p \<in> set (owned (snd (snd (preview_voice e data st))) (fst (get_session_id e)))
            \<and> p \<notin> set (registered st)
            \<and> serve_audio (snd (snd (preview_voice e data st))) (fst (get_session_id e))
                 (basename p) = (200, SendFile p)"
      by blast
    from * show "p \<in> set (owned (snd (snd (preview_voice e data st))) (fst (get_session_id e)))"
      by simp
    from * show "p \<notin> set (registered st)"
      by simp
    from * show "serve_audio (snd (snd (preview_voice e data st))) (fst (get_session_id e))
                 (basename p) = (200, SendFile p)"
      by simp
  }
  {
    fix p
    assume "p \<in> files (snd (snd (generate_speech e data st)))" "p \<notin> files st"
    with allocated_servable [OF ok synthesis_state(2)]
    have *: "p \<in> set (owned (snd (snd (generate_speech e data st))) (fst (get_session_id e)))
            \<and> p \<notin> set (registered st)
            \<and> serve_audio (snd (snd (generate_speech e data st))) (fst (get_session_id e))
                 (basename p) = (200, SendFile p)"
      by blast
    from * show "p \<in> set (owned (snd (snd (generate_speech e data st))) (fst (get_session_id e)))"
      by simp
    from * show "p \<notin> set (registered st)"
      by simp
    from * show "serve_audio (snd (snd (generate_speech e data st))) (fst (get_session_id e))
                 (basename p) = (200, SendFile p)"
      by simp
  }
  {
    assume "fst (fst (preview_voice e data st)) = 200"
    from synthesis_response(1) [OF this] obtain p where
      p: "NamedTemporaryFile (rng e) (files st) = Inr p"
      and url: "snd (fst (preview_voice e data st))
           = AudioUrl (''/audio/'' @ fst (get_session_id e) @ ''/'' @ basename p)"
      and st': "snd (snd (preview_voice e data st))
           = st\<lparr>files := insert p (files st),
                TEMP_FILES := register_temp_file (fst (get_session_id e)) p (TEMP_FILES st)\<rparr>"
      by blast
    from NamedTemporaryFile_fresh [OF p] have "p \<notin> files st"
      by simp
    moreover have "p \<in> files (snd (snd (preview_voice e data st)))"
      by (simp add: st')
    ultimately show "\<exists>p. p \<in> files (snd (snd (preview_voice e data st))) \<and> p \<notin> files st
                 \<and> snd (fst (preview_voice e data st))
                     = AudioUrl (''/audio/'' @ fst (get_session_id e) @ ''/'' @ basename p)"
      using url by blast
  }
  {
    assume "fst (fst (generate_speech e data st)) = 200"
    from synthesis_response(2) [OF this] obtain p where
      p: "NamedTemporaryFile (rng e) (files st) = Inr p"
      and url: "snd (fst (generate_speech e data st))
           = AudioUrlFilename (''/audio/'' @ fst (get_session_id e) @ ''/'' @ basename p)
               (basename p)"
      and st': "snd (snd (generate_speech e data st))
           = st\<lparr>files := insert p (files st),
                TEMP_FILES := register_temp_file (fst (get_session_id e)) p (TEMP_FILES st)\<rparr>"
      by blast
    from NamedTemporaryFile_fresh [OF p] have "p \<notin> files st"
      by simp
    moreover have "p \<in> files (snd (snd (generate_speech e data st)))"
      by (simp add: st')
    ultimately show "\<exists>p. p \<in> files (snd (snd (generate_speech e data st))) \<and> p \<notin> files st
                 \<and> snd (fst (generate_speech e data st))
                     = AudioUrlFilename (''/audio/'' @ fst (get_session_id e) @ ''/'' @ basename p)
                         (basename p)"
      using url by blast
  }
  {
    fix s p trace
    assume own: "p \<in> set (owned st s)" and quiet: "list_all (\<lambda>x. \<not> purges s x) trace"
    from quiet have "\<forall>x \<in> set trace. \<not> purges s x"
      by (simp add: list_all_iff)
    with own show own': "p \<in> set (owned (run trace st) s)"
      by (rule owned_run)
    have "registry_ok (run trace st)"
      using assms by (intro reachable_registry_ok reachable_run)
    then show "serve_audio (run trace st) s (basename p) = (200, SendFile p)"
      using own' by (rule serve_owned)
  }
qed

theorem artifact_registered_until_purge_witness:
  "reachable fallback_catalogue
   \<and> reachable one_artifact
   \<and> ''/tmp/tmpabcdefgh.mp3'' \<in> files (snd (snd (generate_speech quiet_env ryan_request fallback_catalogue)))
   \<and> ''/tmp/tmpabcdefgh.mp3'' \<notin> files fallback_catalogue
   \<and> ''/tmp/tmpabcdefgh.mp3''
        \<in> set (owned (snd (snd (generate_speech quiet_env ryan_request fallback_catalogue)))
                 (fst (get_session_id quiet_env)))
   \<and> serve_audio (snd (snd (generate_speech quiet_env ryan_request fallback_catalogue)))
         (fst (get_session_id quiet_env)) (basename ''/tmp/tmpabcdefgh.mp3'')
       = (200, SendFile ''/tmp/tmpabcdefgh.mp3'')
   \<and> fst (fst (generate_speech quiet_env ryan_request fallback_catalogue)) = 200
   \<and> (\<exists>p. p \<in> files (snd (snd (generate_speech quiet_env ryan_request fallback_catalogue)))
          \<and> p \<notin> files fallback_catalogue
          \<and> snd (fst (generate_speech quiet_env ryan_request fallback_catalogue))
              = AudioUrlFilename (''/audio/'' @ fst (get_session_id quiet_env) @ ''/'' @ basename p)
                  (basename p))
   \<and> ''/tmp/tmpabcdefgh.mp3'' \<in> set (registered one_artifact)
   \<and> ''/tmp/tmpijklmnop.mp3'' \<in> files (snd (snd (preview_voice quiet_env ryan_request one_artifact)))
   \<and> ''/tmp/tmpijklmnop.mp3'' \<notin> files one_artifact
   \<and> ''/tmp/tmpijklmnop.mp3'' \<notin> set (registered one_artifact)
   \<and> serve_audio (snd (snd (preview_voice quiet_env ryan_request one_artifact)))
         (fst (get_session_id quiet_env)) (basename ''/tmp/tmpijklmnop.mp3'')
       = (200, SendFile ''/tmp/tmpijklmnop.mp3'')
   \<and> ''/tmp/tmpabcdefgh.mp3'' \<in> set (owned one_artifact ''alice'')
   \<and> list_all (\<lambda>x. \<not> purges ''alice'' x) busy_trace
   \<and> ''/tmp/tmpabcdefgh.mp3'' \<in> set (owned (run busy_trace one_artifact) ''alice'')
   \<and> serve_audio (run busy_trace one_artifact) ''alice'' (basename ''/tmp/tmpabcdefgh.mp3'')
       = (200, SendFile ''/tmp/tmpabcdefgh.mp3'')"
proof -
  have r0: "reachable fallback_catalogue"
    by (rule reachable.start [OF TEMP_FILES_fallback])
  have r1: "reachable one_artifact"
    unfolding one_artifact_def by (rule reachable_run [OF r0])
  note at0 = artifact_registered_until_purge [OF r0, of quiet_env ryan_request]
  note at1 = artifact_registered_until_purge [OF r1, of quiet_env ryan_request]
  have new0: "''/tmp/tmpabcdefgh.mp3''
                \<in> files (snd (snd (generate_speech quiet_env ryan_request fallback_catalogue)))"
    by code_simp
  have old0: "''/tmp/tmpabcdefgh.mp3'' \<notin> files fallback_catalogue"
    by code_simp
  note gen0 = at0 [THEN conjunct2, THEN conjunct1, rule_format, OF new0 old0]
  have ok0: "fst (fst (generate_speech quiet_env ryan_request fallback_catalogue)) = 200"
    by code_simp
  note url0 = at0 [THEN conjunct2, THEN conjunct2, THEN conjunct2, THEN conjunct1, rule_format,
      OF ok0]
  have reg1: "''/tmp/tmpabcdefgh.mp3'' \<in> set (registered one_artifact)"
    by code_simp
  have new1: "''/tmp/tmpijklmnop.mp3''
                \<in> files (snd (snd (preview_voice quiet_env ryan_request one_artifact)))"
    by code_simp
  have old1: "''/tmp/tmpijklmnop.mp3'' \<notin> files one_artifact"
    by code_simp
  note pre1 = at1 [THEN conjunct1, rule_format, OF new1 old1]
  have own1: "''/tmp/tmpabcdefgh.mp3'' \<in> set (owned one_artifact ''alice'')"
    by code_simp
  have quiet: "list_all (\<lambda>x. \<not> purges ''alice'' x) busy_trace"
    by code_simp
  note kept = at1 [THEN conjunct2, THEN conjunct2, THEN conjunct2, THEN conjunct2, rule_format,
      OF own1 quiet]
  show ?thesis
    by (intro conjI)
       (fact r0 r1 new0 old0 gen0 [THEN conjunct1] gen0 [THEN conjunct2, THEN conjunct2] ok0 url0
          reg1 new1 old1 pre1 [THEN conjunct2, THEN conjunct1]
          pre1 [THEN conjunct2, THEN conjunct2] own1 quiet kept [THEN conjunct1]
          kept [THEN conjunct2])+
qed

section \<open>Rate parameter\<close>



section \<open>Offline mode\<close>

text \<open>
  The claim C5 as it is written fails: after loading a provider list of three voices in
  two languages, more voices and more languages than the built-in fallback set has,
  \<open>/api/voices\<close> still reports \<open>offline_mode\<close>.
\<close>

theorem offline_mode_counterexample:
  "offline_mode (get_voices (load_voices small_provider initial_state))
   \<and> \<not> total_voices (get_voices (load_voices small_provider initial_state))
         \<le> total_voices (get_voices (load_voices no_network initial_state))
   \<and> \<not> length (languages (get_voices (load_voices small_provider initial_state)))
         \<le> length (languages (get_voices (load_voices no_network initial_state)))"
  by code_simp

text \<open>
  C5, amended. \<open>/api/voices\<close> reports \<open>offline_mode\<close> exactly when the loaded
  catalogue has at most three language groups. In particular it does so when the
  connection test fails or the provider raises, so that only the built-in fallback set
  is loaded.
\<close>

theorem offline_mode_by_language_count:
  "offline_mode (get_voices st) = (length (languages (get_voices st)) \<le> 3)
   \<and> offline_mode (get_voices (load_voices (net\<lparr>check_internet_connection := False\<rparr>) st))
   \<and> offline_mode (get_voices
        (load_voices (net\<lparr>check_internet_connection := True, list_voices := Inl msg\<rparr>) st))"
  by (simp add: get_voices_def load_voices_def use_fallback_def get_fallback_voices_def
        dict_keys_def)

section \<open>Unfiltered listing\<close>

text \<open>
  The claim C6 as it is written fails: when the provider lists two voices with the same
  friendly name and gender, the table \<open>VOICE_DATA\<close>, keyed by display name, keeps only
  the later one. The earlier one is in the catalogue that \<open>/api/voices\<close> lists and is
  returned by the filter for its language, but not by the filter for \<open>All\<close>.
\<close>

theorem filter_all_counterexample:
  "ava \<in> set (concat (dict_values (voices (get_voices twin_catalogue))))
   \<and> ava \<in> set (filter_voices twin_catalogue (Some ''English'') (Some ''All'') (Some []))
   \<and> ava \<notin> set (filter_voices twin_catalogue (Some ''All'') (Some ''All'') (Some []))"
  by code_simp

text \<open>
  C6, amended. Filtering with language \<open>All\<close>, gender \<open>All\<close> and an empty search (or
  with no parameters) returns the values of the table \<open>VOICE_DATA\<close> in order. After
  \<open>load_voices\<close> from a provider list, that result has no duplicates; and when the
  descriptors built from the list have pairwise distinct display names, it is exactly
  the list of those descriptors, which holds each descriptor of the language groups of
  \<open>/api/voices\<close> exactly once. After the fallback it is the list of the built-in voices.
\<close>

theorem filter_all_returns_table:
  "filter_voices st (Some ''All'') (Some ''All'') (Some []) = dict_values (VOICE_DATA st)
   \<and> filter_voices st None None None = dict_values (VOICE_DATA st)
   \<and> (\<forall>vs. check_internet_connection net \<longrightarrow> list_voices net = Inr vs \<longrightarrow>
          distinct (filter_voices (load_voices net st) (Some ''All'') (Some ''All'') (Some []))
          \<and> (distinct (map display_name (List.map_filter voice_data_of vs)) \<longrightarrow>
               filter_voices (load_voices net st) (Some ''All'') (Some ''All'') (Some [])
                 = List.map_filter voice_data_of vs
               \<and> mset (filter_voices (load_voices net st) (Some ''All'') (Some ''All'') (Some []))
                   = mset (concat (dict_values (voices (get_voices (load_voices net st)))))))
   \<and> filter_voices (use_fallback st) (Some ''All'') (Some ''All'') (Some [])
       = concat (dict_values get_fallback_voices)"
proof (intro conjI allI impI)
  show "filter_voices st (Some ''All'') (Some ''All'') (Some []) = dict_values (VOICE_DATA st)"
    by (rule filter_voices_all)
  show "filter_voices st None None None = dict_values (VOICE_DATA st)"
    by (simp add: filter_voices_def strip_def lower_def)
  show "filter_voices (use_fallback st) (Some ''All'') (Some ''All'') (Some [])
       = concat (dict_values get_fallback_voices)"
    by (simp add: filter_voices_all use_fallback_def get_fallback_voices_def dict_values_def
          by_display_name_def)
next
  fix vs
  assume on: "check_internet_connection net" and vs: "list_voices net = Inr vs"
  obtain g a where ga: "foldl add_voice ([], []) vs = (g, a)"
    by (cases "foldl add_voice ([], []) vs")
  from foldl_add_voice [of "[]" "[]" vs] ga
  have a: "a = List.map_filter voice_data_of vs"
    and g: "mset (concat (map snd g)) = mset (List.map_filter voice_data_of vs)"
    by simp_all
  have table: "VOICE_DATA (load_voices net st) = by_display_name a"
    and groups: "LANGUAGE_VOICES (load_voices net st) = g"
    using on vs ga by (simp_all add: load_voices_def)
  show "distinct (filter_voices (load_voices net st) (Some ''All'') (Some ''All'') (Some []))"
    by (simp add: filter_voices_all table by_display_name_values_distinct)
  assume d: "distinct (map display_name (List.map_filter voice_data_of vs))"
  then show all: "filter_voices (load_voices net st) (Some ''All'') (Some ''All'') (Some [])
                 = List.map_filter voice_data_of vs"
    by (simp add: filter_voices_all table a by_display_name_distinct_names)
  show "mset (filter_voices (load_voices net st) (Some ''All'') (Some ''All'') (Some []))
          = mset (concat (dict_values (voices (get_voices (load_voices net st)))))"
    by (simp add: all get_voices_def groups dict_values_def g)
qed

theorem filter_all_returns_table_witness:
  "check_internet_connection small_provider
   \<and> list_voices small_provider = Inr (projr (list_voices small_provider))
   \<and> distinct (map display_name (List.map_filter voice_data_of (projr (list_voices small_provider))))
   \<and> distinct (filter_voices small_catalogue (Some ''All'') (Some ''All'') (Some []))
   \<and> filter_voices small_catalogue (Some ''All'') (Some ''All'') (Some [])
       = List.map_filter voice_data_of (projr (list_voices small_provider))
   \<and> mset (filter_voices small_catalogue (Some ''All'') (Some ''All'') (Some []))
       = mset (concat (dict_values (voices (get_voices small_catalogue))))
   \<and> length (filter_voices small_catalogue (Some ''All'') (Some ''All'') (Some [])) = 3"
proof -
  note res = filter_all_returns_table [of initial_state small_provider,
      THEN conjunct2, THEN conjunct2, THEN conjunct1, rule_format]
  have on: "check_internet_connection small_provider"
    by (simp add: small_provider_def)
  have vs: "list_voices small_provider = Inr (projr (list_voices small_provider))"
    by (simp add: small_provider_def)
  have d: "distinct (map display_name
             (List.map_filter voice_data_of (projr (list_voices small_provider))))"
    by code_simp
  note r1 = res [OF on vs, THEN conjunct1, folded small_catalogue_def]
  note r2 = res [OF on vs, THEN conjunct2, rule_format, OF d, folded small_catalogue_def]
  have n: "length (filter_voices small_catalogue (Some ''All'') (Some ''All'') (Some [])) = 3"
    by code_simp
  show ?thesis
    by (intro conjI) (fact on vs d r1 r2 [THEN conjunct1] r2 [THEN conjunct2] n)+
qed

section \<open>Voice resolution\<close>




section \<open>Transcription without an engine\<close>

text \<open>
  The claim C8 as it is written fails: with no engine configured, a request that carries
  no \<open>audio\<close> file part is answered with the error status 400.
\<close>

theorem transcribe_upload_counterexample:
  "WHISPER_MODEL initial_state = None
   \<and> fst (transcribe_upload quiet_env None initial_state)
       = (400, Error ''No audio file provided'')"
  by (simp add: transcribe_upload_def initial_state_def)

text \<open>
  C8, amended. When no transcription engine is configured, every call to
  \<open>/api/transcribe_upload\<close> that carries an \<open>audio\<close> file part with a non-empty file name
  is answered with status 200, the engine name \<open>Mock Engine\<close> and the placeholder
  transcript, and leaves the state as it was.
\<close>

theorem transcribe_upload_mock:
  assumes "WHISPER_MODEL st = None" and "audio = Some f" and "upload_filename f \<noteq> []"
  shows "transcribe_upload e audio st =
           ((200, Transcript ''Mock Engine''
               ''This is a mock transcription. Install whisper engines for real transcription.''
               ''Mock transcription text''), st)"
  using assms by (simp add: transcribe_upload_def)

theorem transcribe_upload_mock_witness:
  "WHISPER_MODEL initial_state = None
   \<and> upload_filename \<lparr>upload_filename = ''memo.mp3''\<rparr> \<noteq> []
   \<and> transcribe_upload quiet_env (Some \<lparr>upload_filename = ''memo.mp3''\<rparr>) initial_state =
       ((200, Transcript ''Mock Engine''
           ''This is a mock transcription. Install whisper engines for real transcription.''
           ''Mock transcription text''), initial_state)"
proof -
  have model: "WHISPER_MODEL initial_state = None"
    by (simp add: initial_state_def)
  have name: "upload_filename \<lparr>upload_filename = ''memo.mp3''\<rparr> \<noteq> []"
    by simp
  show ?thesis
    using model name transcribe_upload_mock [OF model refl name, of quiet_env]
    by simp
qed

section \<open>Case-insensitive search\<close>



section \<open>Missing text\<close>




end
